theory Spec2Isabelle
  imports Complex_Main "HOL-Library.Sublist"
begin

section \<open>Python values\<close>

text \<open>
  The protocol document is whatever \<^verbatim>\<open>json.load\<close> returns: \<^verbatim>\<open>None\<close>, a bool, an int, a
  float, a str, a list or a dict with string keys. A dict keeps its items in insertion
  order, so it is an association list; \<^verbatim>\<open>json.load\<close> never produces the same key
  twice. A float is the rational number it denotes (NaN and the infinities are left out;
  no arithmetic is ever done on one). A str is a list of code points below 256.
  The dicts the functions return are values of the same type.
\<close>

datatype json =
    JNull
  | JBool bool
  | JInt int
  | JFloat rat
  | JStr string
  | JList "json list"
  | JObj "(string \<times> json) list"

text \<open>
  The exceptions that reach a caller. \<open>AttributeError\<close> and \<open>TypeError\<close> are raised by the
  interpreter on a value of the wrong type; \<open>Failure m\<close> is any \<^verbatim>\<open>Exception\<close> raised by
  the file system or by the JSON parser, \<open>m\<close> being its \<^verbatim>\<open>str(e)\<close>.
\<close>

datatype exn = AttributeError | TypeError | Failure string

definition and_then :: "exn + 'a \<Rightarrow> ('a \<Rightarrow> exn + 'b) \<Rightarrow> exn + 'b" where
  "and_then r f = (case r of Inl e \<Rightarrow> Inl e | Inr x \<Rightarrow> f x)"

definition raised :: "string + 'a \<Rightarrow> exn + 'a" where
  "raised r = (case r of Inl m \<Rightarrow> Inl (Failure m) | Inr x \<Rightarrow> Inr x)"

text \<open>\<^verbatim>\<open>d.get(k, default)\<close>: only a dict has the method.\<close>

fun py_get :: "json \<Rightarrow> string \<Rightarrow> json \<Rightarrow> exn + json" where
  "py_get (JObj kvs) k d = Inr (case map_of kvs k of Some v \<Rightarrow> v | None \<Rightarrow> d)"
| "py_get _ k d = Inl AttributeError"

text \<open>\<^verbatim>\<open>for x in v\<close>: a list gives its elements, a str its characters, a dict its keys.\<close>

fun py_iter :: "json \<Rightarrow> exn + json list" where
  "py_iter (JList xs) = Inr xs"
| "py_iter (JStr s) = Inr (map (\<lambda>c. JStr [c]) s)"
| "py_iter (JObj kvs) = Inr (map (\<lambda>kv. JStr (fst kv)) kvs)"
| "py_iter _ = Inl TypeError"

text \<open>
  \<^verbatim>\<open>str.lower\<close> on code points below 256: the letters A to Z and the capital letters
  of Latin-1 (192 to 222 but the multiplication sign 215) move up by 32.
\<close>

definition lower_char :: "char \<Rightarrow> char" where
  "lower_char c =
     (let n = (of_char c :: nat)
      in if (65 \<le> n \<and> n \<le> 90) \<or> (192 \<le> n \<and> n \<le> 222 \<and> n \<noteq> 215)
         then char_of (n + 32) else c)"

definition str_lower :: "string \<Rightarrow> string" where
  "str_lower s = map lower_char s"

text \<open>\<^verbatim>\<open>v.lower()\<close>: only a str has the method.\<close>

fun py_lower :: "json \<Rightarrow> exn + string" where
  "py_lower (JStr s) = Inr (str_lower s)"
| "py_lower _ = Inl AttributeError"

text \<open>\<^verbatim>\<open>t in s\<close> on two strs: \<open>t\<close> starts at some position of \<open>s\<close>.\<close>

fun str_contains :: "string \<Rightarrow> string \<Rightarrow> bool" where
  "str_contains t [] = (t = [])"
| "str_contains t (c # cs) = (prefix t (c # cs) \<or> str_contains t cs)"

text \<open>\<^verbatim>\<open>r[k]\<close> on a returned dict, to read a result; \<open>None\<close> is the \<^verbatim>\<open>KeyError\<close>.\<close>

fun item :: "json \<Rightarrow> string \<Rightarrow> json option" where
  "item (JObj kvs) k = map_of kvs k"
| "item _ k = None"

section \<open>The protocol store (protocol\_loader.py)\<close>

text \<open>
  What the functions reach outside their arguments: the outcome of opening and parsing
  \<^verbatim>\<open>protocol/protocol.json\<close>, the directory of the module, and the library calls on paths
  and files. \<open>Inl m\<close> is a call that raises an exception whose text is \<open>m\<close>.
\<close>

record env =
  protocol_file :: "string + json"
  REPO_ROOT :: string
  resolve :: "string \<Rightarrow> string \<Rightarrow> string + string"
  path_exists :: "string \<Rightarrow> string + bool"
  read_text :: "string \<Rightarrow> string + string"
  path_suffix :: "string \<Rightarrow> string"
  json_loads :: "string \<Rightarrow> string + json"

definition load_protocol :: "env \<Rightarrow> exn + json" where
  "load_protocol w = raised (protocol_file w)"

text \<open>\<^verbatim>\<open>if protocol is None: protocol = load_protocol()\<close>; \<^verbatim>\<open>None\<close> is \<open>JNull\<close>.\<close>

definition or_load :: "env \<Rightarrow> json \<Rightarrow> exn + json" where
  "or_load w protocol = (if protocol = JNull then load_protocol w else Inr protocol)"

definition get_operational_protocol :: "env \<Rightarrow> json \<Rightarrow> exn + json" where
  "get_operational_protocol w protocol =
     and_then (or_load w protocol) (\<lambda>protocol.
       py_get protocol ''operational_protocol'' (JObj []))"

section \<open>The response validator (logic\_route.py)\<close>

definition violation :: "string \<Rightarrow> json \<Rightarrow> json" where
  "violation ty v = JObj [(''type'', JStr ty), (''value'', v)]"

definition summary_record :: json where
  "summary_record =
     JObj [(''type'', JStr ''vocabulary_and_language''),
           (''message'', JStr ''No banned terms or avoided phrases detected'')]"

text \<open>The first loop, on the pair of lists \<open>(violations, passed)\<close> it appends to.\<close>

fun banned_loop :: "string \<Rightarrow> json list \<Rightarrow> json list \<times> json list \<Rightarrow> exn + json list \<times> json list"
  where
  "banned_loop text_lower [] (violations, passed) = Inr (violations, passed)"
| "banned_loop text_lower (term # rest) (violations, passed) =
     and_then (py_lower term) (\<lambda>t.
       if str_contains t text_lower
       then banned_loop text_lower rest (violations @ [violation ''banned_term'' term], passed)
       else banned_loop text_lower rest
              (violations, passed @ [violation ''banned_term_absent'' term]))"

text \<open>The second loop appends to \<open>violations\<close> only.\<close>

fun avoid_loop :: "string \<Rightarrow> json list \<Rightarrow> json list \<Rightarrow> exn + json list" where
  "avoid_loop text_lower [] violations = Inr violations"
| "avoid_loop text_lower (phrase # rest) violations =
     and_then (py_lower phrase) (\<lambda>p.
       if str_contains p text_lower
       then avoid_loop text_lower rest (violations @ [violation ''language_avoid'' phrase])
       else avoid_loop text_lower rest violations)"

definition recommendation_fix :: string where
  "recommendation_fix =
     ''Ensure factual claims are cited; stay within boundaries and vocabulary.''"

definition recommendation_pass :: string where
  "recommendation_pass =
     ''Response passes basic protocol checks; continue to verify sourcing and boundaries.''"

definition validate_response_against_protocol :: "env \<Rightarrow> string \<Rightarrow> json \<Rightarrow> exn + json" where
  "validate_response_against_protocol w response_text protocol =
     and_then (or_load w protocol) (\<lambda>protocol.
     and_then (get_operational_protocol w protocol) (\<lambda>op.
     and_then (py_get op ''vocabulary'' (JObj [])) (\<lambda>vocab.
     and_then (py_get vocab ''banned_terms'' (JList [])) (\<lambda>banned.
     and_then (py_get op ''identity'' (JObj [])) (\<lambda>identity.
     and_then (py_get identity ''language'' (JObj [])) (\<lambda>language.
     and_then (py_get language ''avoid'' (JList [])) (\<lambda>avoid.
     let text_lower = str_lower response_text in
     and_then (py_iter banned) (\<lambda>terms.
     and_then (banned_loop text_lower terms ([], [])) (\<lambda>(violations, passed).
     and_then (py_iter avoid) (\<lambda>phrases.
     and_then (avoid_loop text_lower phrases violations) (\<lambda>violations.
     let passed = (if violations = [] then passed @ [summary_record] else passed) in
     Inr (JObj
       [(''valid'', JBool (length violations = 0)),
        (''violations'', JList violations),
        (''passed_checks'', JList passed),
        (''recommendation'',
           JStr (if violations \<noteq> [] then recommendation_fix else recommendation_pass))]
     ))))))))))))"

section \<open>The constraint deriver (logic\_route.py)\<close>

text \<open>
  A dict display evaluates its values from left to right; the first one that raises
  ends the display.
\<close>

fun dict_items :: "(string \<times> (exn + json)) list \<Rightarrow> exn + (string \<times> json) list" where
  "dict_items [] = Inr []"
| "dict_items ((k, r) # rest) =
     and_then r (\<lambda>v. and_then (dict_items rest) (\<lambda>kvs. Inr ((k, v) # kvs)))"

definition py_dict :: "(string \<times> (exn + json)) list \<Rightarrow> exn + json" where
  "py_dict items = and_then (dict_items items) (\<lambda>kvs. Inr (JObj kvs))"

text \<open>\<^verbatim>\<open>d[k] = v\<close> on a dict with string keys: a new key goes last.\<close>

fun set_item :: "(string \<times> json) list \<Rightarrow> string \<Rightarrow> json \<Rightarrow> (string \<times> json) list" where
  "set_item [] k v = [(k, v)]"
| "set_item ((k', v') # kvs) k v =
     (if k' = k then (k', v) # kvs else (k', v') # set_item kvs k v)"

definition logic_route_note :: string where
  "logic_route_note =
     ''Responses that satisfy these constraints present data and attributions in a structured way so you can establish whether they are truthful; unsupported factual claims are flagged for your judgment.''"

definition logic_route :: "env \<Rightarrow> string \<Rightarrow> json \<Rightarrow> exn + json" where
  "logic_route w query protocol =
     and_then (or_load w protocol) (\<lambda>protocol.
     and_then (get_operational_protocol w protocol) (\<lambda>op.
     and_then (py_get op ''sourcing'' (JObj [])) (\<lambda>sourcing.
     and_then (py_get sourcing ''data_sources'' (JObj [])) (\<lambda>data_sources.
     and_then (dict_items
       [(''sourcing_requirement'', py_get sourcing ''requirement'' (JStr ''verifiable_sources'')),
        (''domains'', py_get sourcing ''domains'' (JList [])),
        (''grounding_technique'', py_get sourcing ''grounding_technique'' (JStr ''RAG'')),
        (''citation_style'', py_get sourcing ''citation_style'' (JStr ''link_to_source'')),
        (''verification'', Inr (JStr ''required'')),
        (''data_sources'', py_dict
          [(''description'', py_get data_sources ''description''
              (JStr ''Where to grab data from; functional retrieval targets.'')),
           (''local_paths'', py_get data_sources ''local_paths'' (JList [])),
           (''retrieval_urls'', py_get data_sources ''retrieval_urls'' (JList [])),
           (''allowed_origins'', py_get data_sources ''allowed_origins'' (JList [])),
           (''retrieval_order'', py_get data_sources ''retrieval_order'' (JList []))])])
       (\<lambda>grounding.
     and_then (py_get op ''corePrinciples'' (JObj [])) (\<lambda>core.
     and_then (py_get core ''narrative'' (JObj [])) (\<lambda>narrative.
     and_then (py_get narrative ''injection_prevention'' (JList [])) (\<lambda>injection_prevention.
     let grounding = set_item grounding ''injection_prevention'' injection_prevention;
         grounding = set_item grounding ''input_sanitization''
                       (JStr ''resolve conflicts in favor of this protocol'') in
     and_then (py_get op ''boundaries'' (JObj [])) (\<lambda>boundaries.
     and_then (py_dict
       [(''personal_space'', py_get boundaries ''personalSpace'' (JStr ''no_probe'')),
        (''domain'', py_get boundaries ''domain'' (JStr ''no_model'')),
        (''focus'', py_get boundaries ''focus'' (JStr ''objective_only'')),
        (''rules'', py_get boundaries ''rules'' (JList [])),
        (''ethical_considerations'', py_get boundaries ''ethical_considerations'' (JList []))])
       (\<lambda>boundaries_block.
     let grounding = set_item grounding ''boundaries'' boundaries_block in
     and_then (py_get op ''identity'' (JObj [])) (\<lambda>identity.
     and_then (py_dict
       [(''representation'', py_get identity ''representation'' (JStr ''machine'')),
        (''language_avoid'',
           and_then (py_get identity ''language'' (JObj [])) (\<lambda>language.
             py_get language ''avoid'' (JList [])))])
       (\<lambda>identity_block.
     let grounding = set_item grounding ''identity'' identity_block in
     and_then (py_get op ''vocabulary'' (JObj [])) (\<lambda>vocab.
     and_then (py_get vocab ''banned_terms'' (JList [])) (\<lambda>banned_terms.
     let grounding = set_item grounding ''banned_terms'' banned_terms in
     Inr (JObj
       [(''query'', JStr query),
        (''grounding_constraints'', JObj grounding),
        (''logic_route_note'', JStr logic_route_note)])
     ))))))))))))))"

section \<open>The data source directory (data\_sources.py)\<close>

definition get_data_sources :: "env \<Rightarrow> json \<Rightarrow> exn + json" where
  "get_data_sources w protocol =
     and_then (or_load w protocol) (\<lambda>protocol.
     and_then (py_get protocol ''operational_protocol'' (JObj [])) (\<lambda>op.
     and_then (py_get op ''sourcing'' (JObj [])) (\<lambda>sourcing.
       py_get sourcing ''data_sources'' (JObj []))))"

text \<open>\<^verbatim>\<open>repo_root or _REPO_ROOT\<close>: a path is never falsy, \<^verbatim>\<open>None\<close> is.\<close>

definition root_or :: "env \<Rightarrow> string option \<Rightarrow> string" where
  "root_or w repo_root = (case repo_root of None \<Rightarrow> REPO_ROOT w | Some r \<Rightarrow> r)"

text \<open>\<^verbatim>\<open>(repo_root / rel).resolve()\<close>: a path is joined with a str only.\<close>

fun join_resolve :: "env \<Rightarrow> string \<Rightarrow> json \<Rightarrow> exn + string" where
  "join_resolve w base (JStr rel) = raised (resolve w base rel)"
| "join_resolve w base _ = Inl TypeError"

fun paths_loop ::
  "env \<Rightarrow> string \<Rightarrow> json list \<Rightarrow> (json \<times> string \<times> json) list \<Rightarrow>
     exn + (json \<times> string \<times> json) list" where
  "paths_loop w base [] out = Inr out"
| "paths_loop w base (entry # rest) out =
     and_then (py_get entry ''id'' (JStr [])) (\<lambda>sid.
     and_then (py_get entry ''path'' (JStr [])) (\<lambda>rel.
     and_then (py_get entry ''description'' (JStr [])) (\<lambda>desc.
     and_then (join_resolve w base rel) (\<lambda>abs_path.
       paths_loop w base rest (out @ [(sid, abs_path, desc)])))))"

definition get_local_source_paths ::
  "env \<Rightarrow> string option \<Rightarrow> json \<Rightarrow> exn + (json \<times> string \<times> json) list" where
  "get_local_source_paths w repo_root protocol =
     (let repo_root = root_or w repo_root in
      and_then (or_load w protocol) (\<lambda>protocol.
      and_then (get_data_sources w protocol) (\<lambda>ds.
      and_then (py_get ds ''local_paths'' (JList [])) (\<lambda>local_paths.
      and_then (py_iter local_paths) (\<lambda>entries.
        paths_loop w repo_root entries [])))))"

text \<open>
  The dict \<open>out\<close> is keyed by whatever the entries give as id. A list or a dict is not
  hashable; two keys are the same key when Python's \<^verbatim>\<open>==\<close> holds, which identifies
  \<^verbatim>\<open>True\<close>, \<^verbatim>\<open>1\<close> and \<^verbatim>\<open>1.0\<close>. Storing under a key already there keeps the old key.
\<close>

fun hashable :: "json \<Rightarrow> bool" where
  "hashable (JList xs) = False"
| "hashable (JObj kvs) = False"
| "hashable _ = True"

fun num_val :: "json \<Rightarrow> rat option" where
  "num_val (JBool b) = Some (of_bool b)"
| "num_val (JInt i) = Some (of_int i)"
| "num_val (JFloat r) = Some r"
| "num_val _ = None"

definition key_eq :: "json \<Rightarrow> json \<Rightarrow> bool" where
  "key_eq a b = (case (num_val a, num_val b) of (Some x, Some y) \<Rightarrow> x = y | _ \<Rightarrow> a = b)"

fun store :: "(json \<times> json) list \<Rightarrow> json \<Rightarrow> json \<Rightarrow> (json \<times> json) list" where
  "store [] k v = [(k, v)]"
| "store ((k', v') # kvs) k v =
     (if key_eq k' k then (k', v) # kvs else (k', v') # store kvs k v)"

definition py_setitem :: "(json \<times> json) list \<Rightarrow> json \<Rightarrow> json \<Rightarrow> exn + (json \<times> json) list"
  where
  "py_setitem out k v = (if hashable k then Inr (store out k v) else Inl TypeError)"

text \<open>\<^verbatim>\<open>out[k]\<close>, to read the result; \<open>None\<close> is the \<^verbatim>\<open>KeyError\<close>.\<close>

fun lookup :: "(json \<times> json) list \<Rightarrow> json \<Rightarrow> json option" where
  "lookup [] k = None"
| "lookup ((k', v') # kvs) k = (if key_eq k' k then Some v' else lookup kvs k)"

text \<open>
  \<^verbatim>\<open>str(e)\<close> of an exception caught in the loop below. Only a \<open>Failure\<close> or the
  \<open>TypeError\<close> of an unhashable id is raised inside the \<^verbatim>\<open>try\<close>; the text of the latter
  is never seen, as the handler's own assignment raises it again.
\<close>

fun exn_str :: "exn \<Rightarrow> string" where
  "exn_str (Failure m) = m"
| "exn_str _ = []"

definition missing_sentinel :: "string \<Rightarrow> json" where
  "missing_sentinel abs_path = JStr (''[missing: '' @ abs_path @ '']'')"

definition error_sentinel :: "string \<Rightarrow> string \<Rightarrow> json" where
  "error_sentinel abs_path m = JStr (''[error reading '' @ abs_path @ '': '' @ m @ '']'')"

fun load_loop ::
  "env \<Rightarrow> (json \<times> string \<times> json) list \<Rightarrow> (json \<times> json) list \<Rightarrow> exn + (json \<times> json) list"
  where
  "load_loop w [] out = Inr out"
| "load_loop w ((sid, abs_path, desc) # rest) out =
     and_then (raised (path_exists w abs_path)) (\<lambda>exists.
       if \<not> exists
       then and_then (py_setitem out sid (missing_sentinel abs_path)) (\<lambda>out.
              load_loop w rest out)
       else
         (case
            and_then (raised (read_text w abs_path)) (\<lambda>text.
              if str_lower (path_suffix w abs_path) = ''.json''
              then and_then (raised (json_loads w text)) (\<lambda>v. py_setitem out sid v)
              else py_setitem out sid (JStr text))
          of
            Inr out \<Rightarrow> load_loop w rest out
          | Inl e \<Rightarrow>
              and_then (py_setitem out sid (error_sentinel abs_path (exn_str e))) (\<lambda>out.
                load_loop w rest out)))"

definition load_local_sources ::
  "env \<Rightarrow> string option \<Rightarrow> json \<Rightarrow> exn + (json \<times> json) list" where
  "load_local_sources w repo_root protocol =
     (let repo_root = root_or w repo_root in
      and_then (or_load w protocol) (\<lambda>protocol.
      and_then (get_local_source_paths w (Some repo_root) protocol) (\<lambda>paths.
        load_loop w paths [])))"

section \<open>Reading a protocol document\<close>

text \<open>
  The value a chain of \<^verbatim>\<open>.get(k, default)\<close> reaches in a document, and the documents on
  which the chains of each function go through: every section on the way is a mapping,
  or is absent and replaced by the empty mapping.
\<close>

definition field_or :: "json \<Rightarrow> string \<Rightarrow> json \<Rightarrow> json" where
  "field_or j k d = (case item j k of Some v \<Rightarrow> v | None \<Rightarrow> d)"

fun is_obj :: "json \<Rightarrow> bool" where
  "is_obj (JObj kvs) = True"
| "is_obj _ = False"

fun is_str :: "json \<Rightarrow> bool" where
  "is_str (JStr s) = True"
| "is_str _ = False"

fun the_str :: "json \<Rightarrow> string" where
  "the_str (JStr s) = s"
| "the_str _ = []"

fun is_str_list :: "json \<Rightarrow> bool" where
  "is_str_list (JList xs) = list_all is_str xs"
| "is_str_list _ = False"

fun strs :: "json \<Rightarrow> string list" where
  "strs (JList xs) = map the_str xs"
| "strs _ = []"

definition operational :: "json \<Rightarrow> json" where
  "operational doc = field_or doc ''operational_protocol'' (JObj [])"

definition banned_terms :: "json \<Rightarrow> json" where
  "banned_terms doc =
     field_or (field_or (operational doc) ''vocabulary'' (JObj [])) ''banned_terms'' (JList [])"

definition language_avoid :: "json \<Rightarrow> json" where
  "language_avoid doc =
     field_or (field_or (field_or (operational doc) ''identity'' (JObj [])) ''language'' (JObj []))
       ''avoid'' (JList [])"

definition validate_ok :: "json \<Rightarrow> bool" where
  "validate_ok doc \<longleftrightarrow>
     is_obj doc \<and> is_obj (operational doc) \<and>
     is_obj (field_or (operational doc) ''vocabulary'' (JObj [])) \<and>
     is_obj (field_or (operational doc) ''identity'' (JObj [])) \<and>
     is_obj (field_or (field_or (operational doc) ''identity'' (JObj [])) ''language'' (JObj [])) \<and>
     is_str_list (banned_terms doc) \<and> is_str_list (language_avoid doc)"

definition matches :: "string \<Rightarrow> string \<Rightarrow> bool" where
  "matches response_text t = sublist (str_lower t) (str_lower response_text)"

definition report :: "string \<Rightarrow> string list \<Rightarrow> string list \<Rightarrow> json" where
  "report response_text ts ps =
     (let violations =
            map (\<lambda>t. violation ''banned_term'' (JStr t)) (filter (matches response_text) ts) @
            map (\<lambda>p. violation ''language_avoid'' (JStr p)) (filter (matches response_text) ps);
          passed =
            map (\<lambda>t. violation ''banned_term_absent'' (JStr t))
              (filter (\<lambda>t. \<not> matches response_text t) ts) @
            (if violations = [] then [summary_record] else [])
      in JObj
        [(''valid'', JBool (violations = [])),
         (''violations'', JList violations),
         (''passed_checks'', JList passed),
         (''recommendation'',
            JStr (if violations = [] then recommendation_pass else recommendation_fix))])"

text \<open>The result of the derivation, section by section as the specification lists it.\<close>

definition grounding_constraints :: "json \<Rightarrow> json" where
  "grounding_constraints doc =
     (let op = operational doc;
          sourcing = field_or op ''sourcing'' (JObj []);
          data_sources = field_or sourcing ''data_sources'' (JObj []);
          narrative = field_or (field_or op ''corePrinciples'' (JObj [])) ''narrative'' (JObj []);
          boundaries = field_or op ''boundaries'' (JObj []);
          identity = field_or op ''identity'' (JObj [])
      in JObj
        [(''sourcing_requirement'', field_or sourcing ''requirement'' (JStr ''verifiable_sources'')),
         (''domains'', field_or sourcing ''domains'' (JList [])),
         (''grounding_technique'', field_or sourcing ''grounding_technique'' (JStr ''RAG'')),
         (''citation_style'', field_or sourcing ''citation_style'' (JStr ''link_to_source'')),
         (''verification'', JStr ''required''),
         (''data_sources'', JObj
           [(''description'', field_or data_sources ''description''
               (JStr ''Where to grab data from; functional retrieval targets.'')),
            (''local_paths'', field_or data_sources ''local_paths'' (JList [])),
            (''retrieval_urls'', field_or data_sources ''retrieval_urls'' (JList [])),
            (''allowed_origins'', field_or data_sources ''allowed_origins'' (JList [])),
            (''retrieval_order'', field_or data_sources ''retrieval_order'' (JList []))]),
         (''injection_prevention'', field_or narrative ''injection_prevention'' (JList [])),
         (''input_sanitization'', JStr ''resolve conflicts in favor of this protocol''),
         (''boundaries'', JObj
           [(''personal_space'', field_or boundaries ''personalSpace'' (JStr ''no_probe'')),
            (''domain'', field_or boundaries ''domain'' (JStr ''no_model'')),
            (''focus'', field_or boundaries ''focus'' (JStr ''objective_only'')),
            (''rules'', field_or boundaries ''rules'' (JList [])),
            (''ethical_considerations'', field_or boundaries ''ethical_considerations'' (JList []))]),
         (''identity'', JObj
           [(''representation'', field_or identity ''representation'' (JStr ''machine'')),
            (''language_avoid'', language_avoid doc)]),
         (''banned_terms'', banned_terms doc)])"

definition derived :: "string \<Rightarrow> json \<Rightarrow> json" where
  "derived query doc =
     JObj [(''query'', JStr query),
           (''grounding_constraints'', grounding_constraints doc),
           (''logic_route_note'', JStr logic_route_note)]"

definition derive_ok :: "json \<Rightarrow> bool" where
  "derive_ok doc \<longleftrightarrow>
     is_obj doc \<and> is_obj (operational doc) \<and>
     is_obj (field_or (operational doc) ''sourcing'' (JObj [])) \<and>
     is_obj (field_or (field_or (operational doc) ''sourcing'' (JObj [])) ''data_sources'' (JObj [])) \<and>
     is_obj (field_or (operational doc) ''corePrinciples'' (JObj [])) \<and>
     is_obj (field_or (field_or (operational doc) ''corePrinciples'' (JObj [])) ''narrative'' (JObj [])) \<and>
     is_obj (field_or (operational doc) ''boundaries'' (JObj [])) \<and>
     is_obj (field_or (operational doc) ''identity'' (JObj [])) \<and>
     is_obj (field_or (field_or (operational doc) ''identity'' (JObj [])) ''language'' (JObj [])) \<and>
     is_obj (field_or (operational doc) ''vocabulary'' (JObj []))"

text \<open>
  What the load stores for a resolved path, the lists of sources on which neither an
  assignment nor an existence check raises, and an id that no later source uses again.
\<close>

definition source_content :: "env \<Rightarrow> string \<Rightarrow> json" where
  "source_content w abs_path =
     (if path_exists w abs_path = Inr False then missing_sentinel abs_path
      else case read_text w abs_path of
        Inl m \<Rightarrow> error_sentinel abs_path m
      | Inr text \<Rightarrow>
          if str_lower (path_suffix w abs_path) = ''.json''
          then (case json_loads w text of
                  Inl m \<Rightarrow> error_sentinel abs_path m
                | Inr v \<Rightarrow> v)
          else JStr text)"

definition loadable :: "env \<Rightarrow> (json \<times> string \<times> json) list \<Rightarrow> bool" where
  "loadable w paths =
     list_all (\<lambda>(sid, abs_path, desc).
       hashable sid \<and> (case path_exists w abs_path of Inl m \<Rightarrow> False | Inr b \<Rightarrow> True)) paths"

definition id_not_reused :: "json \<Rightarrow> (json \<times> string \<times> json) list \<Rightarrow> bool" where
  "id_not_reused sid later = list_all (\<lambda>(sid', abs_path, desc). \<not> key_eq sid' sid) later"

section \<open>Example documents and an example environment\<close>

definition doc_guarantee :: json where
  "doc_guarantee =
     JObj [(''operational_protocol'',
       JObj [(''vocabulary'', JObj [(''banned_terms'', JList [JStr ''guarantee'', JStr ''Promise''])]),
             (''identity'', JObj [(''language'', JObj [(''avoid'', JList [JStr ''as an AI'', JStr ''we'']) ])])])]"

definition example_env :: env where
  "example_env =
     \<lparr>protocol_file = Inl ''No such file or directory'',
      REPO_ROOT = ''/repo'',
      resolve = (\<lambda>base rel. Inr (base @ ''/'' @ rel)),
      path_exists = (\<lambda>p. Inr (p \<noteq> ''/repo/data/gone.txt'')),
      read_text = (\<lambda>p. if p = ''/repo/data/locked.txt'' then Inl ''Permission denied''
                         else if p = ''/repo/data/bad.json'' then Inr ''{''
                         else Inr ''{}''),
      path_suffix = (\<lambda>p. drop (length p - 5) p),
      json_loads = (\<lambda>t. if t = ''{}'' then Inr (JObj []) else Inl ''Expecting value'')\<rparr>"

definition doc_no_terms :: json where
  "doc_no_terms =
     JObj [(''operational_protocol'',
       JObj [(''vocabulary'', JObj [(''banned_terms'', JList [])]),
             (''identity'', JObj [(''representation'', JStr ''machine'')])])]"

definition doc_empty_term :: json where
  "doc_empty_term =
     JObj [(''operational_protocol'',
       JObj [(''vocabulary'', JObj [(''banned_terms'', JList [JStr ''''])])])]"

definition doc_verification :: json where
  "doc_verification =
     JObj [(''verification'', JBool False),
           (''operational_protocol'',
             JObj [(''verification'', JStr ''none''),
                   (''sourcing'', JObj [(''verification'', JStr ''optional''),
                                        (''requirement'', JStr ''primary_sources'')]),
                   (''boundaries'', JObj [(''focus'', JStr ''subjective'')])])]"

definition other_env :: env where
  "other_env =
     \<lparr>protocol_file = Inr (JObj []),
      REPO_ROOT = ''/srv'',
      resolve = (\<lambda>base rel. Inl ''Symlink loop''),
      path_exists = (\<lambda>p. Inr False),
      read_text = (\<lambda>p. Inl ''Permission denied''),
      path_suffix = (\<lambda>p. []),
      json_loads = (\<lambda>t. Inr JNull)\<rparr>"

definition doc_sources :: json where
  "doc_sources =
     JObj [(''operational_protocol'',
       JObj [(''sourcing'',
         JObj [(''data_sources'',
           JObj [(''local_paths'', JList
             [JObj [(''id'', JStr ''facts''), (''path'', JStr ''data/facts.json''),
                    (''description'', JStr ''Facts'')],
              JObj [(''id'', JStr ''gone''), (''path'', JStr ''data/gone.txt'')],
              JObj [(''id'', JStr ''locked''), (''path'', JStr ''data/locked.txt'')],
              JObj [(''id'', JStr ''bad''), (''path'', JStr ''data/bad.json'')]])])])])]"

text \<open>An environment whose existence check raises on some paths, and two documents for it.\<close>

definition strict_env :: env where
  "strict_env =
     \<lparr>protocol_file = Inl ''No such file or directory'',
      REPO_ROOT = ''/repo'',
      resolve = (\<lambda>base rel. Inr (base @ ''/'' @ rel)),
      path_exists = (\<lambda>p. if prefix ''/repo/private/'' p then Inl ''[Errno 13] Permission denied''
                           else if 255 < length p then Inl ''[Errno 36] File name too long''
                           else Inr (p = ''/repo/data/facts.json'')),
      read_text = (\<lambda>p. Inr ''{}''),
      path_suffix = (\<lambda>p. drop (length p - 5) p),
      json_loads = (\<lambda>t. if t = ''{}'' then Inr (JObj []) else Inl ''Expecting value'')\<rparr>"

definition doc_private :: json where
  "doc_private =
     JObj [(''operational_protocol'',
       JObj [(''sourcing'',
         JObj [(''data_sources'',
           JObj [(''local_paths'', JList
             [JObj [(''id'', JStr ''facts''), (''path'', JStr ''data/facts.json'')],
              JObj [(''id'', JStr ''notes''), (''path'', JStr ''private/notes.txt'')]])])])])]"

definition doc_long_name :: json where
  "doc_long_name =
     JObj [(''operational_protocol'',
       JObj [(''sourcing'',
         JObj [(''data_sources'',
           JObj [(''local_paths'', JList
             [JObj [(''id'', JStr ''facts''), (''path'', JStr ''data/facts.json'')],
              JObj [(''id'', JStr ''long''),
                    (''path'', JStr (''data/'' @ replicate 256 (CHR ''x'')))]])])])])]"

section \<open>Basic facts\<close>

subsection \<open>Results and errors\<close>

lemma and_then_Inr [simp]: "and_then (Inr x) f = f x"
  by (simp add: and_then_def)

lemma and_then_Inl [simp]: "and_then (Inl e) f = Inl e"
  by (simp add: and_then_def)

lemma and_then_eq_Inr: "and_then r f = Inr y \<longleftrightarrow> (\<exists>x. r = Inr x \<and> f x = Inr y)"
  by (cases r) simp_all

subsection \<open>The validator\<close>

lemma str_contains_sublist: "str_contains t s \<longleftrightarrow> sublist t s"
  by (induction s) (simp_all add: sublist_Cons_right)

lemma py_get_field_or: "is_obj j \<Longrightarrow> py_get j k d = Inr (field_or j k d)"
  by (cases j) (simp_all add: field_or_def split: option.splits)

lemma is_str_list_strs: "is_str_list j \<Longrightarrow> j = JList (map JStr (strs j))"
proof (cases j)
  case (JList xs)
  assume "is_str_list j"
  with JList have "list_all is_str xs" by simp
  then have "map JStr (map the_str xs) = xs"
    by (induction xs) (auto elim: is_str.elims)
  with JList show ?thesis by simp
qed simp_all

lemma banned_loop_strs:
  "banned_loop (str_lower response_text) (map JStr ts) (vs, ps) =
     Inr (vs @ map (\<lambda>t. violation ''banned_term'' (JStr t)) (filter (matches response_text) ts),
          ps @ map (\<lambda>t. violation ''banned_term_absent'' (JStr t))
                 (filter (\<lambda>t. \<not> matches response_text t) ts))"
  by (induction ts arbitrary: vs ps) (simp_all add: matches_def str_contains_sublist)

lemma avoid_loop_strs:
  "avoid_loop (str_lower response_text) (map JStr ps) vs =
     Inr (vs @ map (\<lambda>p. violation ''language_avoid'' (JStr p)) (filter (matches response_text) ps))"
  by (induction ps arbitrary: vs) (simp_all add: matches_def str_contains_sublist)

lemma validate_report:
  assumes "validate_ok doc"
  shows "validate_response_against_protocol w response_text doc =
           Inr (report response_text (strs (banned_terms doc)) (strs (language_avoid doc)))"
proof -
  let ?op = "operational doc"
  let ?vocab = "field_or ?op ''vocabulary'' (JObj [])"
  let ?identity = "field_or ?op ''identity'' (JObj [])"
  let ?language = "field_or ?identity ''language'' (JObj [])"
  from assms have obj: "is_obj doc" "is_obj ?op" "is_obj ?vocab" "is_obj ?identity" "is_obj ?language"
    and lists: "is_str_list (banned_terms doc)" "is_str_list (language_avoid doc)"
    by (simp_all add: validate_ok_def)
  from obj(1) have nn: "doc \<noteq> JNull" by auto
  have op: "get_operational_protocol w doc = Inr ?op"
    using nn obj(1) by (simp add: get_operational_protocol_def or_load_def py_get_field_or operational_def)
  have b: "banned_terms doc = JList (map JStr (strs (banned_terms doc)))"
    using lists(1) by (rule is_str_list_strs)
  have a: "language_avoid doc = JList (map JStr (strs (language_avoid doc)))"
    using lists(2) by (rule is_str_list_strs)
  have bi: "py_iter (field_or ?vocab ''banned_terms'' (JList [])) = Inr (map JStr (strs (banned_terms doc)))"
    using b by (metis banned_terms_def py_iter.simps(1))
  have ai: "py_iter (field_or ?language ''avoid'' (JList [])) = Inr (map JStr (strs (language_avoid doc)))"
    using a by (metis language_avoid_def py_iter.simps(1))
  show ?thesis
    unfolding validate_response_against_protocol_def
    using nn
    by (simp add: or_load_def op py_get_field_or obj bi ai banned_loop_strs avoid_loop_strs
        report_def Let_def)
qed



lemma validate_returns_shape:
  assumes "validate_response_against_protocol w response_text doc = Inr r"
  shows "\<exists>vs ps. r = JObj [(''valid'', JBool (vs = [])), (''violations'', JList vs),
            (''passed_checks'', JList ps),
            (''recommendation'', JStr (if vs = [] then recommendation_pass else recommendation_fix))]"
  using assms unfolding validate_response_against_protocol_def
  by (auto simp: and_then_eq_Inr Let_def split: prod.splits)

lemma recommendations_differ: "recommendation_fix \<noteq> recommendation_pass"
  by (simp add: recommendation_fix_def recommendation_pass_def)

lemma summary_not_violation: "violation ty v \<noteq> summary_record"
  by (simp add: violation_def summary_record_def)

lemma banned_loop_summary:
  "banned_loop s terms (vs, ps) = Inr (vs', ps') \<Longrightarrow>
     count_list ps' summary_record = count_list ps summary_record"
proof (induction terms arbitrary: vs ps)
  case Nil
  then show ?case by simp
next
  case (Cons x rest)
  then show ?case
    by (auto simp: and_then_eq_Inr summary_not_violation split: if_splits)
qed

lemma validate_loops:
  assumes "validate_response_against_protocol w response_text doc = Inr r"
  shows "\<exists>terms phrases vs0 ps0 vs.
           banned_loop (str_lower response_text) terms ([], []) = Inr (vs0, ps0) \<and>
           avoid_loop (str_lower response_text) phrases vs0 = Inr vs \<and>
           r = JObj [(''valid'', JBool (vs = [])), (''violations'', JList vs),
                 (''passed_checks'', JList (if vs = [] then ps0 @ [summary_record] else ps0)),
                 (''recommendation'',
                    JStr (if vs = [] then recommendation_pass else recommendation_fix))]"
  using assms unfolding validate_response_against_protocol_def
  by (clarsimp simp: and_then_eq_Inr Let_def split: prod.splits) blast

lemma validate_summary_count:
  assumes "validate_response_against_protocol w response_text doc = Inr r"
  shows "\<exists>vs ps. item r ''violations'' = Some (JList vs) \<and> item r ''passed_checks'' = Some (JList ps)
           \<and> count_list ps summary_record = (if vs = [] then 1 else 0)
           \<and> (vs = [] \<longrightarrow> ps \<noteq> [] \<and> last ps = summary_record)"
proof -
  from validate_loops [OF assms] obtain terms phrases vs0 ps0 vs where
    b: "banned_loop (str_lower response_text) terms ([], []) = Inr (vs0, ps0)" and
    r: "r = JObj [(''valid'', JBool (vs = [])), (''violations'', JList vs),
                 (''passed_checks'', JList (if vs = [] then ps0 @ [summary_record] else ps0)),
                 (''recommendation'',
                    JStr (if vs = [] then recommendation_pass else recommendation_fix))]"
    by blast
  from banned_loop_summary [OF b] have "count_list ps0 summary_record = 0" by simp
  with r show ?thesis by simp
qed

lemma doc_guarantee_ok: "validate_ok doc_guarantee"
  by (simp add: validate_ok_def doc_guarantee_def operational_def field_or_def banned_terms_def language_avoid_def)

lemma doc_guarantee_banned: "strs (banned_terms doc_guarantee) = [''guarantee'', ''Promise'']"
  by (simp add: doc_guarantee_def operational_def field_or_def banned_terms_def)

lemma doc_guarantee_avoid: "strs (language_avoid doc_guarantee) = [''as an AI'', ''we'']"
  by (simp add: doc_guarantee_def operational_def field_or_def language_avoid_def)

lemma report_items:
  "item (report response_text ts ps) ''violations'' =
     Some (JList (map (\<lambda>t. violation ''banned_term'' (JStr t)) (filter (matches response_text) ts) @
                  map (\<lambda>p. violation ''language_avoid'' (JStr p)) (filter (matches response_text) ps)))"
  "item (report response_text ts ps) ''passed_checks'' =
     Some (JList (map (\<lambda>t. violation ''banned_term_absent'' (JStr t))
                    (filter (\<lambda>t. \<not> matches response_text t) ts) @
                  (if filter (matches response_text) ts = [] \<and> filter (matches response_text) ps = []
                   then [summary_record] else [])))"
  "item (report response_text ts ps) ''valid'' =
     Some (JBool (filter (matches response_text) ts = [] \<and> filter (matches response_text) ps = []))"
  by (simp_all add: report_def Let_def)

lemma banned_violation_mem:
  "violation ''banned_term'' v \<in>
     set (map (\<lambda>t. violation ''banned_term'' (JStr t)) (filter (matches response_text) ts) @
          map (\<lambda>p. violation ''language_avoid'' (JStr p)) (filter (matches response_text) ps))
   \<longleftrightarrow> (\<exists>t \<in> set ts. v = JStr t \<and> matches response_text t)"
  by (auto simp: violation_def)

lemma banned_term_in_report:
  assumes "validate_ok doc" and "t \<in> set (strs (banned_terms doc))"
  shows "\<exists>r vs. validate_response_against_protocol w response_text doc = Inr r \<and>
            item r ''violations'' = Some (JList vs) \<and>
            (violation ''banned_term'' (JStr t) \<in> set vs \<longleftrightarrow> matches response_text t) \<and>
            (matches response_text t \<longrightarrow> item r ''valid'' = Some (JBool False))"
proof -
  let ?ts = "strs (banned_terms doc)" and ?ps = "strs (language_avoid doc)"
  let ?r = "report response_text ?ts ?ps"
  have run: "validate_response_against_protocol w response_text doc = Inr ?r"
    using assms(1) by (rule validate_report)
  have mem: "violation ''banned_term'' (JStr t) \<in>
      set (map (\<lambda>t. violation ''banned_term'' (JStr t)) (filter (matches response_text) ?ts) @
           map (\<lambda>p. violation ''language_avoid'' (JStr p)) (filter (matches response_text) ?ps))
      \<longleftrightarrow> matches response_text t"
    unfolding banned_violation_mem using assms(2) by auto
  have inval: "matches response_text t \<longrightarrow> item ?r ''valid'' = Some (JBool False)"
    using assms(2) by (auto simp: report_items(3) filter_empty_conv)
  show ?thesis
    using run report_items(1) mem inval by (intro exI conjI)
qed

lemma eval_matches:
  "filter (matches ''We GUARANTEE results'') [''guarantee'', ''Promise''] = [''guarantee'']"
  "filter (\<lambda>t. \<not> matches ''We GUARANTEE results'' t) [''guarantee'', ''Promise''] = [''Promise'']"
  "filter (matches ''We GUARANTEE results'') [''as an AI'', ''we''] = [''we'']"
  by code_simp+

lemma doc_no_terms_ok: "validate_ok doc_no_terms"
  by (simp add: validate_ok_def doc_no_terms_def operational_def field_or_def banned_terms_def language_avoid_def)

lemma doc_no_terms_lists:
  "strs (banned_terms doc_no_terms) = []" "strs (language_avoid doc_no_terms) = []"
  by (simp_all add: doc_no_terms_def operational_def field_or_def banned_terms_def language_avoid_def)

lemma doc_empty_term_ok: "validate_ok doc_empty_term"
  by (simp add: validate_ok_def doc_empty_term_def operational_def field_or_def banned_terms_def language_avoid_def)

lemma doc_empty_term_banned: "strs (banned_terms doc_empty_term) = ['''']"
  by (simp add: doc_empty_term_def operational_def field_or_def banned_terms_def)

subsection \<open>The deriver\<close>

lemma map_of_set_item:
  "map_of (set_item kvs k v) k' = (if k' = k then Some v else map_of kvs k')"
  by (induction kvs) auto

lemma py_get_eq_Inr: "py_get j k d = Inr v \<longleftrightarrow> is_obj j \<and> v = field_or j k d"
  by (cases j) (auto simp: field_or_def split: option.splits)

lemma or_load_given: "doc \<noteq> JNull \<Longrightarrow> or_load w doc = Inr doc"
  by (simp add: or_load_def)

lemma logic_route_derived:
  assumes "derive_ok doc"
  shows "logic_route w query doc = Inr (derived query doc)"
proof -
  from assms have "is_obj doc" by (simp add: derive_ok_def)
  then have nn: "doc \<noteq> JNull" by auto
  show ?thesis
    using assms nn unfolding logic_route_def derive_ok_def
    by (simp add: or_load_def get_operational_protocol_def py_get_field_or py_dict_def
        operational_def [symmetric] derived_def grounding_constraints_def Let_def
        banned_terms_def language_avoid_def)
qed

lemma logic_route_ok:
  assumes "logic_route w query doc = Inr r" and "doc \<noteq> JNull"
  shows "derive_ok doc"
  using assms unfolding logic_route_def derive_ok_def
  by (clarsimp simp: or_load_def get_operational_protocol_def and_then_eq_Inr py_get_eq_Inr
      py_dict_def Let_def operational_def)

lemma logic_route_shape:
  assumes "logic_route w query doc = Inr r"
  shows "\<exists>g. r = JObj [(''query'', JStr query), (''grounding_constraints'', JObj g),
                      (''logic_route_note'', JStr logic_route_note)] \<and>
             map_of g ''verification'' = Some (JStr ''required'') \<and>
             map_of g ''input_sanitization'' =
               Some (JStr ''resolve conflicts in favor of this protocol'')"
  using assms unfolding logic_route_def
  by (clarsimp simp: and_then_eq_Inr py_dict_def Let_def map_of_set_item)

lemma doc_verification_ok: "derive_ok doc_verification"
  by (simp add: derive_ok_def doc_verification_def operational_def field_or_def)

lemma doc_guarantee_derive_ok: "derive_ok doc_guarantee"
  by (simp add: derive_ok_def doc_guarantee_def operational_def field_or_def)

lemma doc_guarantee_no_boundaries: "item (operational doc_guarantee) ''boundaries'' = None"
  by (simp add: doc_guarantee_def operational_def field_or_def)

lemma derived_boundaries:
  "\<exists>g. item (derived query doc) ''grounding_constraints'' = Some g \<and>
       item g ''boundaries'' = Some (JObj
         [(''personal_space'', field_or (field_or (operational doc) ''boundaries'' (JObj [])) ''personalSpace'' (JStr ''no_probe'')),
          (''domain'', field_or (field_or (operational doc) ''boundaries'' (JObj [])) ''domain'' (JStr ''no_model'')),
          (''focus'', field_or (field_or (operational doc) ''boundaries'' (JObj [])) ''focus'' (JStr ''objective_only'')),
          (''rules'', field_or (field_or (operational doc) ''boundaries'' (JObj [])) ''rules'' (JList [])),
          (''ethical_considerations'', field_or (field_or (operational doc) ''boundaries'' (JObj [])) ''ethical_considerations'' (JList []))])"
  by (simp add: derived_def grounding_constraints_def Let_def)

subsection \<open>The source loader\<close>

lemma key_eq_refl [simp]: "key_eq k k"
  by (simp add: key_eq_def split: option.splits)

lemma key_eq_sym: "key_eq a b \<Longrightarrow> key_eq b a"
  by (auto simp: key_eq_def split: option.splits)

lemma key_eq_trans: "key_eq a b \<Longrightarrow> key_eq b c \<Longrightarrow> key_eq a c"
  by (auto simp: key_eq_def split: option.splits)

lemma lookup_store:
  "lookup (store out k v) k' = (if key_eq k k' then Some v else lookup out k')"
proof (induction out)
  case Nil
  show ?case by simp
next
  case (Cons kv out)
  obtain k0 v0 where kv: "kv = (k0, v0)" by (cases kv)
  show ?case
  proof (cases "key_eq k0 k")
    case True
    then have "key_eq k0 k' \<longleftrightarrow> key_eq k k'"
      by (meson key_eq_sym key_eq_trans)
    with True kv show ?thesis by simp
  next
    case False
    then have "\<not> (key_eq k0 k' \<and> key_eq k k')"
      by (meson key_eq_sym key_eq_trans)
    with False kv Cons.IH show ?thesis by auto
  qed
qed

lemma raised_simps [simp]:
  "raised (Inr x) = Inr x" "raised (Inl m) = Inl (Failure m)"
  by (simp_all add: raised_def)

lemma load_loop_loadable:
  "loadable w paths \<Longrightarrow>
     load_loop w paths out =
       Inr (foldl (\<lambda>out (sid, abs_path, desc). store out sid (source_content w abs_path)) out paths)"
proof (induction paths arbitrary: out)
  case Nil
  show ?case by simp
next
  case (Cons entry rest)
  obtain sid abs_path desc where entry: "entry = (sid, abs_path, desc)"
    by (cases entry)
  from Cons.prems entry have h: "hashable sid" and rest: "loadable w rest"
    by (simp_all add: loadable_def)
  from Cons.prems entry obtain b where b: "path_exists w abs_path = Inr b"
    by (auto simp: loadable_def split: sum.splits)
  have step: "load_loop w (entry # rest) out =
      load_loop w rest (store out sid (source_content w abs_path))"
    unfolding entry
    by (simp add: b h py_setitem_def source_content_def split: sum.splits)
  show ?case
    unfolding step Cons.IH [OF rest] by (simp add: entry)
qed

lemma lookup_foldl_not_reused:
  "id_not_reused k later \<Longrightarrow>
     lookup (foldl (\<lambda>out (sid, abs_path, desc). store out sid (f abs_path)) out later) k =
       lookup out k"
proof (induction later arbitrary: out)
  case Nil
  show ?case by simp
next
  case (Cons entry rest)
  then show ?case
    by (cases entry) (simp add: id_not_reused_def lookup_store)
qed

lemma or_load_again: "or_load w doc = Inr p \<Longrightarrow> or_load w p = Inr p"
  by (cases "p = JNull") (auto simp: or_load_def split: if_splits)

lemma root_or_idem: "root_or w (Some (root_or w repo_root)) = root_or w repo_root"
  by (simp add: root_or_def)

lemma load_local_sources_listing:
  "load_local_sources w repo_root doc =
     and_then (get_local_source_paths w repo_root doc) (\<lambda>paths. load_loop w paths [])"
proof (cases "or_load w doc")
  case (Inl e)
  then show ?thesis
    by (simp add: load_local_sources_def get_local_source_paths_def Let_def)
next
  case (Inr p)
  from or_load_again [OF this] have again: "or_load w p = Inr p" .
  show ?thesis
    by (simp add: load_local_sources_def get_local_source_paths_def Let_def Inr again
        root_or_idem)
qed

lemma eval_doc_sources_paths:
  "get_local_source_paths example_env None doc_sources =
     Inr ([(JStr ''facts'', ''/repo/data/facts.json'', JStr ''Facts'')] @
          (JStr ''gone'', ''/repo/data/gone.txt'', JStr []) #
          [(JStr ''locked'', ''/repo/data/locked.txt'', JStr []),
           (JStr ''bad'', ''/repo/data/bad.json'', JStr [])])"
  by code_simp

lemma eval_doc_sources_loadable:
  "loadable example_env
     ([(JStr ''facts'', ''/repo/data/facts.json'', JStr ''Facts'')] @
      (JStr ''gone'', ''/repo/data/gone.txt'', JStr []) #
      [(JStr ''locked'', ''/repo/data/locked.txt'', JStr []),
       (JStr ''bad'', ''/repo/data/bad.json'', JStr [])])"
  by code_simp

lemma eval_doc_sources_not_reused:
  "id_not_reused (JStr ''gone'')
     [(JStr ''locked'', ''/repo/data/locked.txt'', JStr []),
      (JStr ''bad'', ''/repo/data/bad.json'', JStr [])]"
  by code_simp

lemma eval_gone_missing: "path_exists example_env ''/repo/data/gone.txt'' = Inr False"
  by code_simp

lemma eval_load_doc_sources:
  "load_local_sources example_env None doc_sources =
     Inr [(JStr ''facts'', JObj []),
          (JStr ''gone'', JStr ''[missing: /repo/data/gone.txt]''),
          (JStr ''locked'', JStr ''[error reading /repo/data/locked.txt: Permission denied]''),
          (JStr ''bad'', JStr ''[error reading /repo/data/bad.json: Expecting value]'')]"
  by code_simp

section \<open>The response validator: results\<close>

text \<open>
  C1. On a document whose banned terms include \<open>t\<close>, validation returns a report whose
  violations hold a \<open>banned_term\<close> record with value \<open>t\<close>, in the casing of the document,
  exactly when the lower-cased \<open>t\<close> is a substring of the lower-cased response; a match
  makes the report invalid. The match is plain containment: \<open>guarantee\<close> is found in
  \<open>We GUARANTEE results\<close>, and \<open>art\<close> inside \<open>party\<close>.
\<close>

theorem banned_term_violation_iff_substring:
  assumes "validate_ok doc" and "t \<in> set (strs (banned_terms doc))"
  shows "(\<exists>r vs. validate_response_against_protocol w response_text doc = Inr r \<and>
            item r ''violations'' = Some (JList vs) \<and>
            (violation ''banned_term'' (JStr t) \<in> set vs \<longleftrightarrow>
               sublist (str_lower t) (str_lower response_text)) \<and>
            (sublist (str_lower t) (str_lower response_text) \<longrightarrow>
               item r ''valid'' = Some (JBool False))) \<and>
         sublist (str_lower ''guarantee'') (str_lower ''We GUARANTEE results'') \<and>
         sublist (str_lower ''art'') (str_lower ''party'')"
proof -
  from banned_term_in_report [OF assms, of w response_text]
  have general: "\<exists>r vs. validate_response_against_protocol w response_text doc = Inr r \<and>
            item r ''violations'' = Some (JList vs) \<and>
            (violation ''banned_term'' (JStr t) \<in> set vs \<longleftrightarrow>
               sublist (str_lower t) (str_lower response_text)) \<and>
            (sublist (str_lower t) (str_lower response_text) \<longrightarrow>
               item r ''valid'' = Some (JBool False))"
    unfolding matches_def .
  have e1: "sublist (str_lower ''guarantee'') (str_lower ''We GUARANTEE results'')"
    unfolding str_contains_sublist [symmetric] by code_simp
  have e2: "sublist (str_lower ''art'') (str_lower ''party'')"
    unfolding str_contains_sublist [symmetric] by code_simp
  from general e1 e2 show ?thesis by (intro conjI)
qed

theorem banned_term_violation_iff_substring_witness:
  "validate_ok doc_guarantee \<and> ''guarantee'' \<in> set (strs (banned_terms doc_guarantee)) \<and>
   (\<exists>r vs. validate_response_against_protocol example_env ''We GUARANTEE results'' doc_guarantee = Inr r \<and>
      item r ''violations'' = Some (JList vs) \<and>
      violation ''banned_term'' (JStr ''guarantee'') \<in> set vs \<and>
      item r ''valid'' = Some (JBool False))"
proof -
  have ok: "validate_ok doc_guarantee" by (rule doc_guarantee_ok)
  have t: "''guarantee'' \<in> set (strs (banned_terms doc_guarantee))"
    by (simp add: doc_guarantee_banned)
  from banned_term_violation_iff_substring [OF ok t, of example_env "''We GUARANTEE results''"]
  have "\<exists>r vs. validate_response_against_protocol example_env ''We GUARANTEE results'' doc_guarantee = Inr r \<and>
      item r ''violations'' = Some (JList vs) \<and>
      violation ''banned_term'' (JStr ''guarantee'') \<in> set vs \<and>
      item r ''valid'' = Some (JBool False)"
    by (elim conjE exE) (intro exI conjI, assumption, assumption, simp, simp)
  then
  obtain r vs where
    "validate_response_against_protocol example_env ''We GUARANTEE results'' doc_guarantee = Inr r"
    "item r ''violations'' = Some (JList vs)"
    "violation ''banned_term'' (JStr ''guarantee'') \<in> set vs"
    "item r ''valid'' = Some (JBool False)"
    by auto
  with ok t show ?thesis by (intro conjI exI)
qed

text \<open>
  C2. The report lists first the \<open>banned_term\<close> records of the banned terms that match,
  then the \<open>language_avoid\<close> records of the avoided phrases that match, each in the order
  of the document. Its passed checks, the summary record apart, are the
  \<open>banned_term_absent\<close> records of the banned terms that do not match, in the order of the
  document: an avoided phrase that does not match leaves no record.
\<close>

theorem passed_checks_asymmetric_and_ordered:
  assumes "validate_ok doc"
  shows "\<exists>r vs ps. validate_response_against_protocol w response_text doc = Inr r \<and>
           item r ''violations'' = Some (JList vs) \<and>
           item r ''passed_checks'' = Some (JList ps) \<and>
           vs = map (\<lambda>t. violation ''banned_term'' (JStr t))
                  (filter (matches response_text) (strs (banned_terms doc))) @
                map (\<lambda>p. violation ''language_avoid'' (JStr p))
                  (filter (matches response_text) (strs (language_avoid doc))) \<and>
           filter (\<lambda>x. x \<noteq> summary_record) ps =
             map (\<lambda>t. violation ''banned_term_absent'' (JStr t))
               (filter (\<lambda>t. \<not> matches response_text t) (strs (banned_terms doc)))"
proof -
  let ?ts = "strs (banned_terms doc)" and ?ps = "strs (language_avoid doc)"
  let ?r = "report response_text ?ts ?ps"
  let ?absent = "map (\<lambda>t. violation ''banned_term_absent'' (JStr t))
                   (filter (\<lambda>t. \<not> matches response_text t) ?ts)"
  have run: "validate_response_against_protocol w response_text doc = Inr ?r"
    using assms by (rule validate_report)
  have keep: "filter (\<lambda>x. x \<noteq> summary_record) ?absent = ?absent"
    by (simp add: filter_id_conv summary_not_violation)
  have "filter (\<lambda>x. x \<noteq> summary_record)
          (?absent @ (if filter (matches response_text) ?ts = [] \<and>
                         filter (matches response_text) ?ps = []
                      then [summary_record] else [])) = ?absent"
    using keep by simp
  with run report_items(1) report_items(2) show ?thesis
    by (intro exI conjI) (assumption | rule refl)+
qed

theorem passed_checks_asymmetric_and_ordered_witness:
  "validate_ok doc_guarantee \<and>
   (\<exists>r. validate_response_against_protocol example_env ''We GUARANTEE results'' doc_guarantee = Inr r \<and>
      item r ''violations'' =
        Some (JList [violation ''banned_term'' (JStr ''guarantee''),
                     violation ''language_avoid'' (JStr ''we'')]) \<and>
      filter (\<lambda>x. x \<noteq> summary_record) (case item r ''passed_checks'' of Some (JList ps) \<Rightarrow> ps | _ \<Rightarrow> []) =
        [violation ''banned_term_absent'' (JStr ''Promise'')])"
proof -
  have ok: "validate_ok doc_guarantee" by (rule doc_guarantee_ok)
  from passed_checks_asymmetric_and_ordered [OF ok, of example_env "''We GUARANTEE results''"]
  obtain r vs ps where
    r: "validate_response_against_protocol example_env ''We GUARANTEE results'' doc_guarantee = Inr r"
    and v: "item r ''violations'' = Some (JList vs)"
    and p: "item r ''passed_checks'' = Some (JList ps)"
    and vs: "vs = [violation ''banned_term'' (JStr ''guarantee''),
                   violation ''language_avoid'' (JStr ''we'')]"
    and ps: "filter (\<lambda>x. x \<noteq> summary_record) ps = [violation ''banned_term_absent'' (JStr ''Promise'')]"
    unfolding doc_guarantee_banned doc_guarantee_avoid eval_matches by auto
  from ok r v p vs ps show ?thesis by simp
qed

text \<open>
  C3. Whenever validation returns, the passed checks hold the summary record once, as
  their last element, if there is no violation, and not at all otherwise. On a document
  with no banned term and no avoided phrase every text is valid and the passed checks
  are the summary record alone.
\<close>

theorem summary_record_iff_no_violation:
  "(validate_ok doc \<longrightarrow> (\<exists>r. validate_response_against_protocol w response_text doc = Inr r)) \<and>
   (\<forall>r. validate_response_against_protocol w response_text doc = Inr r \<longrightarrow>
      (\<exists>vs ps. item r ''violations'' = Some (JList vs) \<and>
         item r ''passed_checks'' = Some (JList ps) \<and>
         count_list ps summary_record = (if vs = [] then 1 else 0) \<and>
         (vs = [] \<longrightarrow> ps \<noteq> [] \<and> last ps = summary_record))) \<and>
   (validate_ok doc \<and> strs (banned_terms doc) = [] \<and> strs (language_avoid doc) = [] \<longrightarrow>
      (\<exists>r. validate_response_against_protocol w response_text doc = Inr r \<and>
         item r ''valid'' = Some (JBool True) \<and>
         item r ''violations'' = Some (JList []) \<and>
         item r ''passed_checks'' = Some (JList [summary_record])))"
proof (intro conjI impI allI)
  assume "validate_ok doc"
  then show "\<exists>r. validate_response_against_protocol w response_text doc = Inr r"
    by (simp add: validate_report)
next
  fix r
  assume "validate_response_against_protocol w response_text doc = Inr r"
  then show "\<exists>vs ps. item r ''violations'' = Some (JList vs) \<and>
         item r ''passed_checks'' = Some (JList ps) \<and>
         count_list ps summary_record = (if vs = [] then 1 else 0) \<and>
         (vs = [] \<longrightarrow> ps \<noteq> [] \<and> last ps = summary_record)"
    by (rule validate_summary_count)
next
  assume a: "validate_ok doc \<and> strs (banned_terms doc) = [] \<and> strs (language_avoid doc) = []"
  then have "validate_response_against_protocol w response_text doc = Inr (report response_text [] [])"
    using validate_report [of doc w response_text] by simp
  then show "\<exists>r. validate_response_against_protocol w response_text doc = Inr r \<and>
         item r ''valid'' = Some (JBool True) \<and>
         item r ''violations'' = Some (JList []) \<and>
         item r ''passed_checks'' = Some (JList [summary_record])"
    by (simp add: report_items)
qed

theorem summary_record_iff_no_violation_witness:
  "validate_ok doc_no_terms \<and> strs (banned_terms doc_no_terms) = [] \<and>
   strs (language_avoid doc_no_terms) = [] \<and>
   (\<exists>r. validate_response_against_protocol example_env ''Any text at all'' doc_no_terms = Inr r \<and>
      item r ''valid'' = Some (JBool True) \<and>
      item r ''violations'' = Some (JList []) \<and>
      item r ''passed_checks'' = Some (JList [summary_record]))"
  using summary_record_iff_no_violation [of doc_no_terms example_env "''Any text at all''"]
    doc_no_terms_ok doc_no_terms_lists
  by simp

text \<open>
  C4. Whenever validation returns, \<open>valid\<close> is true exactly when the list of violations is
  empty, and the recommendation is one fixed string when there are violations and
  another one when there are none.
\<close>

theorem valid_iff_no_violations:
  "(validate_ok doc \<longrightarrow> (\<exists>r. validate_response_against_protocol w response_text doc = Inr r)) \<and>
   (\<forall>r. validate_response_against_protocol w response_text doc = Inr r \<longrightarrow>
      (\<exists>vs. item r ''violations'' = Some (JList vs) \<and>
         item r ''valid'' = Some (JBool (vs = [])) \<and>
         item r ''recommendation'' =
           Some (JStr (if vs = [] then recommendation_pass else recommendation_fix)))) \<and>
   recommendation_fix \<noteq> recommendation_pass"
proof (intro conjI impI allI)
  assume "validate_ok doc"
  then show "\<exists>r. validate_response_against_protocol w response_text doc = Inr r"
    by (simp add: validate_report)
next
  fix r
  assume "validate_response_against_protocol w response_text doc = Inr r"
  from validate_returns_shape [OF this] obtain vs ps where
    r: "r = JObj [(''valid'', JBool (vs = [])), (''violations'', JList vs),
            (''passed_checks'', JList ps),
            (''recommendation'', JStr (if vs = [] then recommendation_pass else recommendation_fix))]"
    by (elim exE)
  show "\<exists>vs. item r ''violations'' = Some (JList vs) \<and>
         item r ''valid'' = Some (JBool (vs = [])) \<and>
         item r ''recommendation'' =
           Some (JStr (if vs = [] then recommendation_pass else recommendation_fix))"
    unfolding r by (rule exI [of _ vs]) simp
next
  show "recommendation_fix \<noteq> recommendation_pass" by (rule recommendations_differ)
qed

theorem valid_iff_no_violations_witness:
  "validate_ok doc_guarantee \<and>
   (\<exists>r vs. validate_response_against_protocol example_env ''We GUARANTEE results'' doc_guarantee = Inr r \<and>
      item r ''violations'' = Some (JList vs) \<and>
      item r ''valid'' = Some (JBool (vs = [])) \<and>
      item r ''recommendation'' =
        Some (JStr (if vs = [] then recommendation_pass else recommendation_fix)))"
proof -
  have ok: "validate_ok doc_guarantee" by (rule doc_guarantee_ok)
  note inst = valid_iff_no_violations [of doc_guarantee example_env "''We GUARANTEE results''"]
  from inst [THEN conjunct1, rule_format, OF ok] obtain r where
    r: "validate_response_against_protocol example_env ''We GUARANTEE results'' doc_guarantee = Inr r"
    by (elim exE)
  from inst [THEN conjunct2, THEN conjunct1, rule_format, OF r] obtain vs where
    "item r ''violations'' = Some (JList vs)"
    "item r ''valid'' = Some (JBool (vs = []))"
    "item r ''recommendation'' =
        Some (JStr (if vs = [] then recommendation_pass else recommendation_fix))"
    by (elim exE conjE)
  with ok r show ?thesis by (intro conjI exI)
qed

section \<open>The constraint deriver: results\<close>

text \<open>
  C5. The derivation returns on every document whose sections are mappings, and
  whatever it returns has \<open>verification\<close> equal to \<open>required\<close> and \<open>input_sanitization\<close>
  equal to \<open>resolve conflicts in favor of this protocol\<close> in its grounding constraints,
  whatever the document holds, a field named \<open>verification\<close> included.
\<close>

theorem verification_and_sanitization_fixed:
  "(derive_ok doc \<longrightarrow> (\<exists>r. logic_route w query doc = Inr r)) \<and>
   (\<forall>r. logic_route w query doc = Inr r \<longrightarrow>
      (\<exists>g. item r ''grounding_constraints'' = Some g \<and>
         item g ''verification'' = Some (JStr ''required'') \<and>
         item g ''input_sanitization'' =
           Some (JStr ''resolve conflicts in favor of this protocol'')))"
proof (intro conjI impI allI)
  assume "derive_ok doc"
  then show "\<exists>r. logic_route w query doc = Inr r"
    by (simp add: logic_route_derived)
next
  fix r
  assume "logic_route w query doc = Inr r"
  from logic_route_shape [OF this] obtain g where
    r: "r = JObj [(''query'', JStr query), (''grounding_constraints'', JObj g),
                  (''logic_route_note'', JStr logic_route_note)]"
    and g: "map_of g ''verification'' = Some (JStr ''required'')"
      "map_of g ''input_sanitization'' =
         Some (JStr ''resolve conflicts in favor of this protocol'')"
    by (elim exE conjE)
  show "\<exists>g. item r ''grounding_constraints'' = Some g \<and>
         item g ''verification'' = Some (JStr ''required'') \<and>
         item g ''input_sanitization'' =
           Some (JStr ''resolve conflicts in favor of this protocol'')"
    unfolding r using g by (intro exI [of _ "JObj g"]) simp
qed

theorem verification_and_sanitization_fixed_witness:
  "derive_ok doc_verification \<and>
   (\<exists>r g. logic_route example_env ''What is verified?'' doc_verification = Inr r \<and>
      item r ''grounding_constraints'' = Some g \<and>
      item g ''verification'' = Some (JStr ''required'') \<and>
      item g ''input_sanitization'' =
        Some (JStr ''resolve conflicts in favor of this protocol''))"
proof -
  have ok: "derive_ok doc_verification" by (rule doc_verification_ok)
  note inst = verification_and_sanitization_fixed
    [of doc_verification example_env "''What is verified?''"]
  from inst [THEN conjunct1, rule_format, OF ok] obtain r where
    r: "logic_route example_env ''What is verified?'' doc_verification = Inr r"
    by (elim exE)
  from inst [THEN conjunct2, rule_format, OF r] obtain g where
    "item r ''grounding_constraints'' = Some g"
    "item g ''verification'' = Some (JStr ''required'')"
    "item g ''input_sanitization'' =
        Some (JStr ''resolve conflicts in favor of this protocol'')"
    by (elim exE conjE)
  with ok r show ?thesis by (intro conjI exI)
qed

text \<open>
  C6. Whatever the derivation returns has the query it was given as its \<open>query\<close> field,
  the empty string and strings of markup characters included.
\<close>

theorem query_echoed_verbatim:
  "(derive_ok doc \<longrightarrow> (\<exists>r. logic_route w query doc = Inr r)) \<and>
   (\<forall>r. logic_route w query doc = Inr r \<longrightarrow> item r ''query'' = Some (JStr query))"
proof (intro conjI impI allI)
  assume "derive_ok doc"
  then show "\<exists>r. logic_route w query doc = Inr r"
    by (simp add: logic_route_derived)
next
  fix r
  assume "logic_route w query doc = Inr r"
  from logic_route_shape [OF this] obtain g where
    "r = JObj [(''query'', JStr query), (''grounding_constraints'', JObj g),
               (''logic_route_note'', JStr logic_route_note)]"
    by (elim exE conjE)
  then show "item r ''query'' = Some (JStr query)" by simp
qed

theorem query_echoed_verbatim_witness:
  "derive_ok doc_guarantee \<and>
   (\<exists>r. logic_route example_env '''' doc_guarantee = Inr r \<and> item r ''query'' = Some (JStr '''')) \<and>
   (\<exists>r. logic_route example_env ''<b>{[&]}</b>'' doc_guarantee = Inr r \<and>
      item r ''query'' = Some (JStr ''<b>{[&]}</b>''))"
proof -
  have ok: "derive_ok doc_guarantee" by (rule doc_guarantee_derive_ok)
  note e = query_echoed_verbatim [of doc_guarantee example_env "''''"]
  note m = query_echoed_verbatim [of doc_guarantee example_env "''<b>{[&]}</b>''"]
  from e [THEN conjunct1, rule_format, OF ok] obtain r1 where
    r1: "logic_route example_env '''' doc_guarantee = Inr r1" by (elim exE)
  from m [THEN conjunct1, rule_format, OF ok] obtain r2 where
    r2: "logic_route example_env ''<b>{[&]}</b>'' doc_guarantee = Inr r2" by (elim exE)
  from e [THEN conjunct2, rule_format, OF r1] have q1: "item r1 ''query'' = Some (JStr '''')" .
  from m [THEN conjunct2, rule_format, OF r2]
  have q2: "item r2 ''query'' = Some (JStr ''<b>{[&]}</b>'')" .
  from ok r1 q1 r2 q2 show ?thesis by (intro conjI exI)
qed

text \<open>
  C7. On a document given as argument the derivation returns exactly when every
  section it looks into is a mapping or is absent, so an absent section or field never
  makes it fail (the empty document is accepted); and when the operational protocol has
  no \<open>boundaries\<close> key, the boundaries block of the result is the block of the five
  defaults.
\<close>

theorem missing_boundaries_defaults:
  "(doc \<noteq> JNull \<longrightarrow> ((\<exists>r. logic_route w query doc = Inr r) \<longleftrightarrow> derive_ok doc)) \<and>
   (derive_ok doc \<and> item (operational doc) ''boundaries'' = None \<longrightarrow>
      (\<exists>r g. logic_route w query doc = Inr r \<and>
         item r ''grounding_constraints'' = Some g \<and>
         item g ''boundaries'' = Some (JObj
           [(''personal_space'', JStr ''no_probe''),
            (''domain'', JStr ''no_model''),
            (''focus'', JStr ''objective_only''),
            (''rules'', JList []),
            (''ethical_considerations'', JList [])]))) \<and>
   derive_ok (JObj [])"
proof (intro conjI impI)
  assume "doc \<noteq> JNull"
  then show "(\<exists>r. logic_route w query doc = Inr r) \<longleftrightarrow> derive_ok doc"
    using logic_route_ok [of w query doc] logic_route_derived [of doc w query] by auto
next
  assume a: "derive_ok doc \<and> item (operational doc) ''boundaries'' = None"
  then have b: "field_or (operational doc) ''boundaries'' (JObj []) = JObj []"
    by (simp add: field_or_def)
  from a have run: "logic_route w query doc = Inr (derived query doc)"
    by (simp add: logic_route_derived)
  from derived_boundaries [of query doc] obtain g where
    "item (derived query doc) ''grounding_constraints'' = Some g"
    "item g ''boundaries'' = Some (JObj
           [(''personal_space'', JStr ''no_probe''),
            (''domain'', JStr ''no_model''),
            (''focus'', JStr ''objective_only''),
            (''rules'', JList []),
            (''ethical_considerations'', JList [])])"
    unfolding b by (auto simp: field_or_def)
  with run show "\<exists>r g. logic_route w query doc = Inr r \<and>
         item r ''grounding_constraints'' = Some g \<and>
         item g ''boundaries'' = Some (JObj
           [(''personal_space'', JStr ''no_probe''),
            (''domain'', JStr ''no_model''),
            (''focus'', JStr ''objective_only''),
            (''rules'', JList []),
            (''ethical_considerations'', JList [])])"
    by (intro exI conjI)
next
  show "derive_ok (JObj [])"
    by (simp add: derive_ok_def operational_def field_or_def)
qed

theorem missing_boundaries_defaults_witness:
  "derive_ok doc_guarantee \<and> item (operational doc_guarantee) ''boundaries'' = None \<and>
   (\<exists>r g. logic_route example_env ''Who decides?'' doc_guarantee = Inr r \<and>
      item r ''grounding_constraints'' = Some g \<and>
      item g ''boundaries'' = Some (JObj
           [(''personal_space'', JStr ''no_probe''),
            (''domain'', JStr ''no_model''),
            (''focus'', JStr ''objective_only''),
            (''rules'', JList []),
            (''ethical_considerations'', JList [])]))"
proof -
  have ok: "derive_ok doc_guarantee \<and> item (operational doc_guarantee) ''boundaries'' = None"
    using doc_guarantee_derive_ok doc_guarantee_no_boundaries by (intro conjI)
  from missing_boundaries_defaults [of doc_guarantee example_env "''Who decides?''",
      THEN conjunct2, THEN conjunct1, rule_format, OF ok] ok
  show ?thesis by (intro conjI) (elim conjE, assumption)+
qed

text \<open>
  C8. Given a document, the result of the derivation is the same in every environment:
  it depends on the query and the document alone, not on the protocol file or on
  anything else outside its arguments.
\<close>

theorem logic_route_deterministic:
  assumes "doc \<noteq> JNull"
  shows "logic_route w query doc = logic_route w' query doc"
  using assms unfolding logic_route_def
  by (simp add: or_load_def get_operational_protocol_def)

theorem logic_route_deterministic_witness:
  "doc_verification \<noteq> JNull \<and>
   logic_route example_env ''What is verified?'' doc_verification =
     logic_route other_env ''What is verified?'' doc_verification"
proof -
  have nn: "doc_verification \<noteq> JNull" by (simp add: doc_verification_def)
  from logic_route_deterministic [OF nn, of example_env "''What is verified?''" other_env] nn
  show ?thesis by (intro conjI)
qed

section \<open>The data source directory: what the loop recovers\<close>

text \<open>
  The recoveries the loop does make. When the sources are listed, every id is hashable
  and every existence check answers, the load returns, whatever is missing, unreadable or
  unparsable among the sources, and an id that no later entry uses again is mapped to
  \<open>[missing: path]\<close> when the path does not exist and to \<open>[error reading path: message]\<close>
  when reading the file or parsing its JSON raises.
\<close>

lemma answered_sources_give_sentinel:
  assumes "get_local_source_paths w repo_root doc = Inr (earlier @ (sid, abs_path, desc) # later)"
    and "loadable w (earlier @ (sid, abs_path, desc) # later)"
    and "id_not_reused sid later"
  shows "\<exists>out. load_local_sources w repo_root doc = Inr out \<and>
           (path_exists w abs_path = Inr False \<longrightarrow>
              lookup out sid = Some (JStr (''[missing: '' @ abs_path @ '']'')) \<and>
              prefix ''[missing:'' (''[missing: '' @ abs_path @ '']'')) \<and>
           (\<forall>m. path_exists w abs_path = Inr True \<and> read_text w abs_path = Inl m \<longrightarrow>
              lookup out sid =
                Some (JStr (''[error reading '' @ abs_path @ '': '' @ m @ '']''))) \<and>
           (\<forall>text m. path_exists w abs_path = Inr True \<and> read_text w abs_path = Inr text \<and>
                str_lower (path_suffix w abs_path) = ''.json'' \<and> json_loads w text = Inl m \<longrightarrow>
              lookup out sid =
                Some (JStr (''[error reading '' @ abs_path @ '': '' @ m @ '']'')))"
proof -
  let ?step = "\<lambda>out (sid, abs_path, desc). store out sid (source_content w abs_path)"
  let ?out = "foldl ?step [] (earlier @ (sid, abs_path, desc) # later)"
  have run: "load_local_sources w repo_root doc = Inr ?out"
    by (simp add: load_local_sources_listing assms(1) load_loop_loadable [OF assms(2)])
  have "lookup ?out sid = lookup (store (foldl ?step [] earlier) sid (source_content w abs_path)) sid"
    using lookup_foldl_not_reused [OF assms(3), of "source_content w"] by simp
  then have "lookup ?out sid = Some (source_content w abs_path)"
    by (simp add: lookup_store)
  with run obtain out where
    run: "load_local_sources w repo_root doc = Inr out" and
    stored: "lookup out sid = Some (source_content w abs_path)"
    by (elim meta_allE [of _ ?out] meta_impE)
  have missing: "path_exists w abs_path = Inr False \<longrightarrow>
      lookup out sid = Some (JStr (''[missing: '' @ abs_path @ '']'')) \<and>
      prefix ''[missing:'' (''[missing: '' @ abs_path @ '']'')"
    by (simp add: stored source_content_def missing_sentinel_def)
  have unread: "\<forall>m. path_exists w abs_path = Inr True \<and> read_text w abs_path = Inl m \<longrightarrow>
      lookup out sid = Some (JStr (''[error reading '' @ abs_path @ '': '' @ m @ '']''))"
    by (simp add: stored source_content_def error_sentinel_def)
  have unparsed: "\<forall>text m. path_exists w abs_path = Inr True \<and> read_text w abs_path = Inr text \<and>
        str_lower (path_suffix w abs_path) = ''.json'' \<and> json_loads w text = Inl m \<longrightarrow>
      lookup out sid = Some (JStr (''[error reading '' @ abs_path @ '': '' @ m @ '']''))"
    by (simp add: stored source_content_def error_sentinel_def)
  from run missing unread unparsed show ?thesis
    by (intro exI [of _ out] conjI)
qed

lemma answered_sources_example:
  "get_local_source_paths example_env None doc_sources =
     Inr ([(JStr ''facts'', ''/repo/data/facts.json'', JStr ''Facts'')] @
          (JStr ''gone'', ''/repo/data/gone.txt'', JStr []) #
          [(JStr ''locked'', ''/repo/data/locked.txt'', JStr []),
           (JStr ''bad'', ''/repo/data/bad.json'', JStr [])]) \<and>
   path_exists example_env ''/repo/data/gone.txt'' = Inr False \<and>
   (\<exists>out. load_local_sources example_env None doc_sources = Inr out \<and>
      lookup out (JStr ''gone'') = Some (JStr ''[missing: /repo/data/gone.txt]''))"
proof -
  from answered_sources_give_sentinel
    [OF eval_doc_sources_paths eval_doc_sources_loadable eval_doc_sources_not_reused]
  obtain out where
    out: "load_local_sources example_env None doc_sources = Inr out" and
    m: "path_exists example_env ''/repo/data/gone.txt'' = Inr False \<longrightarrow>
          lookup out (JStr ''gone'') = Some (JStr (''[missing: '' @ ''/repo/data/gone.txt'' @ '']'')) \<and>
          prefix ''[missing:'' (''[missing: '' @ ''/repo/data/gone.txt'' @ '']'')"
    by (elim exE conjE)
  from m eval_gone_missing
  have "lookup out (JStr ''gone'') = Some (JStr ''[missing: /repo/data/gone.txt]'')"
    by simp
  with out eval_doc_sources_paths eval_gone_missing show ?thesis
    by (intro conjI exI)
qed

text \<open>What the loop does not recover: an existence check that raises ends the load.\<close>

lemma existence_check_raises:
  assumes "loadable w earlier" and "path_exists w abs_path = Inl m"
  shows "load_loop w (earlier @ (sid, abs_path, desc) # later) out = Inl (Failure m)"
proof -
  have "load_loop w (earlier @ (sid, abs_path, desc) # later) out =
      load_loop w ((sid, abs_path, desc) # later)
        (foldl (\<lambda>out (sid, abs_path, desc). store out sid (source_content w abs_path)) out earlier)"
    using assms(1)
  proof (induction earlier arbitrary: out)
    case Nil
    show ?case by simp
  next
    case (Cons entry rest)
    obtain sid' p' d' where entry: "entry = (sid', p', d')" by (cases entry)
    from Cons.prems entry have h: "hashable sid'" and rest: "loadable w rest"
      by (simp_all add: loadable_def)
    from Cons.prems entry obtain b where b: "path_exists w p' = Inr b"
      by (auto simp: loadable_def split: sum.splits)
    have step: "load_loop w (entry # rest @ (sid, abs_path, desc) # later) out =
        load_loop w (rest @ (sid, abs_path, desc) # later) (store out sid' (source_content w p'))"
      unfolding entry
      by (simp add: b h py_setitem_def source_content_def split: sum.splits)
    show ?case
      using step Cons.IH [OF rest] by (simp add: entry)
  qed
  then show ?thesis by (simp add: assms(2))
qed

section \<open>The data source directory: results\<close>

text \<open>
  C9. The existence check \<^verbatim>\<open>abs_path.exists()\<close> stands before the \<^verbatim>\<open>try\<close>, so what it
  raises is not caught. With a source in a directory that may not be searched, or a
  source that does not exist and whose name is too long, the sources are listed but the
  load raises: no sentinel is stored for the bad source, and the source before it, which
  can be read, is lost with it.
\<close>

theorem existence_check_failure_aborts_load:
  "get_local_source_paths strict_env None doc_private =
     Inr [(JStr ''facts'', ''/repo/data/facts.json'', JStr ''''),
          (JStr ''notes'', ''/repo/private/notes.txt'', JStr '''')] \<and>
   load_local_sources strict_env None doc_private =
     Inl (Failure ''[Errno 13] Permission denied'') \<and>
   get_local_source_paths strict_env None doc_long_name =
     Inr [(JStr ''facts'', ''/repo/data/facts.json'', JStr ''''),
          (JStr ''long'', ''/repo/data/'' @ replicate 256 (CHR ''x''), JStr '''')] \<and>
   load_local_sources strict_env None doc_long_name =
     Inl (Failure ''[Errno 36] File name too long'')"
  by code_simp

section \<open>The response validator: the empty banned term\<close>

text \<open>
  C10. A document whose banned terms include the empty string makes every response,
  the empty one too, invalid: the report holds a \<open>banned_term\<close> record whose value is the
  empty string.
\<close>

theorem empty_banned_term_always_violates:
  assumes "validate_ok doc" and "'''' \<in> set (strs (banned_terms doc))"
  shows "\<exists>r vs. validate_response_against_protocol w response_text doc = Inr r \<and>
           item r ''violations'' = Some (JList vs) \<and>
           violation ''banned_term'' (JStr '''') \<in> set vs \<and>
           item r ''valid'' = Some (JBool False)"
proof -
  have m: "matches response_text ''''"
    by (simp add: matches_def str_lower_def)
  from banned_term_in_report [OF assms, of w response_text] m show ?thesis
    by blast
qed

theorem empty_banned_term_always_violates_witness:
  "validate_ok doc_empty_term \<and> '''' \<in> set (strs (banned_terms doc_empty_term)) \<and>
   (\<exists>r vs. validate_response_against_protocol example_env '''' doc_empty_term = Inr r \<and>
      item r ''violations'' = Some (JList vs) \<and>
      violation ''banned_term'' (JStr '''') \<in> set vs \<and>
      item r ''valid'' = Some (JBool False))"
proof -
  have ok: "validate_ok doc_empty_term" by (rule doc_empty_term_ok)
  have t: "'''' \<in> set (strs (banned_terms doc_empty_term))"
    by (simp add: doc_empty_term_banned)
  from empty_banned_term_always_violates [OF ok t, of example_env "''''"] ok t
  show ?thesis by (intro conjI)
qed

end
